theory Spec2Isabelle
  imports Main "HOL-Library.Word" "HOL-Library.AList"
begin

unbundle bit_operations_syntax

chapter \<open>The model: the program as Isabelle definitions\<close>

section \<open>Run-time panics\<close>

text \<open>
  The Go run-time panics the modelled code can raise: an index out of range, a failed type
  assertion, a send on (or a second close of) a closed channel, a negative length given
  to \<^verbatim>\<open>make\<close>, and the dereference of a nil pointer. A function that can panic
  returns \<open>panic + 'a\<close>, with \<open>Inl\<close> the panic.
\<close>

datatype panic =
    IndexOutOfRange
  | TypeAssertionFailed
  | SendOnClosedChannel
  | CloseOfClosedChannel
  | MakeSizeOutOfRange
  | NilPointerDereference

section \<open>Channels\<close>

text \<open>
  A buffered Go channel: the queued values, the capacity and whether it has been closed.
  A send panics on a closed channel, goes through when the buffer has room, and otherwise
  cannot proceed (\<open>Full\<close>: a plain send blocks, a \<^verbatim>\<open>select\<close> takes its \<^verbatim>\<open>default\<close>). A
  receive takes the oldest value; on an empty channel it ends when the channel is closed
  (\<open>Ended\<close>: a \<^verbatim>\<open>range\<close> loop leaves) and otherwise has to wait (\<open>Empty\<close>).
\<close>

record 'a chan =
  buf :: "'a list"
  cap :: nat
  closed :: bool

definition makeChan :: "nat \<Rightarrow> 'a chan" where
  "makeChan n = \<lparr>buf = [], cap = n, closed = False\<rparr>"

datatype 'a send = Sent "'a chan" | Full | ClosedChan

definition chanSend :: "'a chan \<Rightarrow> 'a \<Rightarrow> 'a send" where
  "chanSend ch x =
     (if closed ch then ClosedChan
      else if length (buf ch) < cap ch then Sent (ch\<lparr>buf := buf ch @ [x]\<rparr>)
      else Full)"

datatype 'a recv = Received 'a "'a chan" | Ended | Empty

definition chanRecv :: "'a chan \<Rightarrow> 'a recv" where
  "chanRecv ch =
     (case buf ch of
        x # xs \<Rightarrow> Received x (ch\<lparr>buf := xs\<rparr>)
      | [] \<Rightarrow> if closed ch then Ended else Empty)"

definition chanClose :: "'a chan \<Rightarrow> panic + 'a chan" where
  "chanClose ch = (if closed ch then Inl CloseOfClosedChannel else Inr (ch\<lparr>closed := True\<rparr>))"


section \<open>RateLimiter (token bucket with full reset)\<close>

text \<open>
  The Go struct \<^verbatim>\<open>RateLimiter\<close> holds \<^verbatim>\<open>tokens\<close>, \<^verbatim>\<open>maxTokens\<close>, a mutex, the
  refill interval and a quit channel. Every access to \<^verbatim>\<open>tokens\<close> happens under the
  mutex, so a run of the limiter is a sequence of atomic events: a call of
  \<^verbatim>\<open>Allow\<close> or one tick of the refill ticker. The interval is kept as a number of
  nanoseconds; the passing of time is the \<^verbatim>\<open>Tick\<close> event.
\<close>

record RateLimiter =
  tokens :: int
  maxTokens :: int
  refillInterval :: int

definition NewRateLimiter :: "int \<Rightarrow> int \<Rightarrow> RateLimiter" where
  "NewRateLimiter maxTokens0 refillInterval0 =
     \<lparr>tokens = maxTokens0, maxTokens = maxTokens0, refillInterval = refillInterval0\<rparr>"

text \<open>\<^verbatim>\<open>Allow\<close>: decrement and grant when a token is left, refuse otherwise.\<close>

definition Allow :: "RateLimiter \<Rightarrow> bool \<times> RateLimiter" where
  "Allow rl = (if tokens rl > 0 then (True, rl\<lparr>tokens := tokens rl - 1\<rparr>) else (False, rl))"

text \<open>The ticker branch of \<^verbatim>\<open>refillTokens\<close>: the bucket is reset to \<^verbatim>\<open>maxTokens\<close>.\<close>

definition refillTick :: "RateLimiter \<Rightarrow> RateLimiter" where
  "refillTick rl = rl\<lparr>tokens := maxTokens rl\<rparr>"

text \<open>\<open>n\<close> consecutive calls of \<^verbatim>\<open>Allow\<close>, with their answers in call order.\<close>

fun allowN :: "nat \<Rightarrow> RateLimiter \<Rightarrow> bool list \<times> RateLimiter" where
  "allowN 0 rl = ([], rl)"
| "allowN (Suc n) rl =
     (case Allow rl of (ok, rl') \<Rightarrow>
        (case allowN n rl' of (oks, rl'') \<Rightarrow> (ok # oks, rl'')))"

datatype rl_event = CallAllow | Tick

fun rl_step :: "RateLimiter \<Rightarrow> rl_event \<Rightarrow> RateLimiter" where
  "rl_step rl CallAllow = snd (Allow rl)"
| "rl_step rl Tick = refillTick rl"

definition rl_run :: "rl_event list \<Rightarrow> RateLimiter \<Rightarrow> RateLimiter" where
  "rl_run evs rl = foldl rl_step rl evs"

section \<open>The radix tree (package tree)\<close>

text \<open>
  A \<^verbatim>\<open>Node\<close> holds its key segment, its value (Go's \<^verbatim>\<open>any\<close>: \<open>None\<close> is \<^verbatim>\<open>nil\<close>), the flag
  \<^verbatim>\<open>hasValue\<close> and the children, a Go map from the first byte of a child's key to the
  child. The map is kept as an association list that is only ever changed by
  \<open>AList.update\<close> and \<open>AList.delete\<close>, so every byte occurs at most once and the list's
  length is the map's \<^verbatim>\<open>len\<close>. Go iterates over a map in no fixed order; the list's
  order stands for one such order. The Go code changes nodes in place through
  pointers; no node is ever reachable by two paths, so the functions below return the
  changed node and the caller stores it back where the pointer was.

  Indexing a string out of range panics in Go. The functions that index return
  \<open>Inl IndexOutOfRange\<close> there.
\<close>

datatype 'v Node = Node (key: string) (value': "'v option") (hasValue: bool)
  (children: "(char \<times> 'v Node) list")

record 'v Tree =
  root :: "'v Node"
  size' :: int

definition New :: "'v Tree" where
  "New = \<lparr>root = Node [] None False [], size' = 0\<rparr>"

lemma size_child:
  "map_of cs b = Some c \<Longrightarrow> size c < Suc (size_list (size_prod (\<lambda>_. 0) size) cs)"
  by (induction cs) (auto split: if_splits)

lemma size_child_Node:
  "map_of (children n) b = Some c \<Longrightarrow> size c < size n"
  using size_child [of "children n" b c] by (cases n) simp

lemma size_children:
  "Suc (2 * size_list (size_prod (\<lambda>_. 0) size) (children n)) < 2 * size n"
  by (cases n) simp

lemma size_snd: "size (snd bc) \<le> size_prod (\<lambda>_. 0) size bc"
  by (cases bc) simp

text \<open>\<^verbatim>\<open>commonPrefixLen\<close>: the loop that counts equal leading bytes.\<close>

function cplLoop :: "string \<Rightarrow> string \<Rightarrow> nat \<Rightarrow> nat" where
  "cplLoop a b i =
     (if i < min (length b) (length a) \<and> a ! i = b ! i then cplLoop a b (Suc i) else i)"
  by pat_completeness auto
termination
  by (relation "measure (\<lambda>(a, b, i). min (length b) (length a) - i)") auto

declare cplLoop.simps [simp del]

definition commonPrefixLen :: "string \<Rightarrow> string \<Rightarrow> nat" where
  "commonPrefixLen a b = cplLoop a b 0"

text \<open>\<^verbatim>\<open>n.children[b] = c\<close> and \<^verbatim>\<open>delete(n.children, b)\<close>.\<close>

definition setChild :: "'v Node \<Rightarrow> char \<Rightarrow> 'v Node \<Rightarrow> 'v Node" where
  "setChild n b c = Node (key n) (value' n) (hasValue n) (AList.update b c (children n))"

definition removeChild :: "'v Node \<Rightarrow> char \<Rightarrow> 'v Node" where
  "removeChild n b = Node (key n) (value' n) (hasValue n) (AList.delete b (children n))"

text \<open>
  \<^verbatim>\<open>Tree.insert\<close>, branch by branch: no children; no child under the first byte; the
  key is the child's key; the key is a proper prefix of the child's key; the child's
  key is a proper prefix of the key (recursion); neither is a prefix of the other
  (split at the common prefix).
\<close>

function insert :: "'v Node \<Rightarrow> string \<Rightarrow> 'v option \<Rightarrow> panic + 'v Node" where
  "insert n k v =
    (case k of
       [] \<Rightarrow> Inl IndexOutOfRange
     | b # _ \<Rightarrow>
        if children n = [] then Inr (setChild n b (Node k v True []))
        else
          (case map_of (children n) b of
             None \<Rightarrow> Inr (setChild n b (Node k v True []))
           | Some c \<Rightarrow>
              let prefixLen = commonPrefixLen k (key c) in
              if prefixLen = length k \<and> prefixLen = length (key c)
              then Inr (setChild n b (Node (key c) v True (children c)))
              else if prefixLen = length k
              then
                (let childSuffix = drop prefixLen (key c) in
                 Inr (setChild n b (Node k v True
                   (case childSuffix of
                      [] \<Rightarrow> []
                    | s # _ \<Rightarrow> [(s, Node childSuffix (value' c) (hasValue c) (children c))]))))
              else if prefixLen = length (key c)
              then
                (case insert c (drop prefixLen k) v of
                   Inl e \<Rightarrow> Inl e
                 | Inr c' \<Rightarrow> Inr (setChild n b c'))
              else
                (let childSuffix = drop prefixLen (key c) in
                 case childSuffix of
                   [] \<Rightarrow> Inl IndexOutOfRange
                 | s # _ \<Rightarrow>
                    (let keySuffix = drop prefixLen k;
                         c1 = Node childSuffix (value' c) (hasValue c) (children c);
                         newNode =
                           (case keySuffix of
                              [] \<Rightarrow> Node (take prefixLen k) v True [(s, c1)]
                            | t # _ \<Rightarrow>
                               Node (take prefixLen k) None False
                                 (AList.update t (Node keySuffix v True []) [(s, c1)]))
                     in Inr (setChild n b newNode)))))"
  by pat_completeness auto
termination
  by (relation "measure (\<lambda>(n, k, v). size n)") (auto simp: size_child_Node)

declare insert.simps [simp del]

definition Insert :: "'v Tree \<Rightarrow> string \<Rightarrow> 'v option \<Rightarrow> panic + 'v Tree" where
  "Insert t k v =
     (if k = [] then Inr t
      else
        (case insert (root t) k v of
           Inl e \<Rightarrow> Inl e
         | Inr r \<Rightarrow> Inr (t\<lparr>root := r, size' := size' t + 1\<rparr>)))"

text \<open>
  \<^verbatim>\<open>findNode\<close>: the loop walks down from the root; \<open>Inr None\<close> is the Go result
  \<^verbatim>\<open>(nil, false)\<close> and \<open>Inr (Some c)\<close> is \<^verbatim>\<open>(c, true)\<close>.
\<close>

function findNodeLoop :: "'v Node \<Rightarrow> string \<Rightarrow> panic + 'v Node option" where
  "findNodeLoop n k =
    (if children n = [] then Inr None
     else
       (case k of
          [] \<Rightarrow> Inl IndexOutOfRange
        | b # _ \<Rightarrow>
           (case map_of (children n) b of
              None \<Rightarrow> Inr None
            | Some c \<Rightarrow>
               if length (key c) > length k then Inr None
               else if take (length (key c)) k \<noteq> key c then Inr None
               else if length (key c) = length k then Inr (Some c)
               else findNodeLoop c (drop (length (key c)) k))))"
  by pat_completeness auto
termination
  by (relation "measure (\<lambda>(n, k). size n)") (auto simp: size_child_Node)

declare findNodeLoop.simps [simp del]

definition findNode :: "'v Tree \<Rightarrow> string \<Rightarrow> panic + 'v Node option" where
  "findNode t k = (if k = [] then Inr None else findNodeLoop (root t) k)"

text \<open>\<^verbatim>\<open>Get\<close> returns the Go pair (value, found).\<close>

definition Get :: "'v Tree \<Rightarrow> string \<Rightarrow> panic + ('v option \<times> bool)" where
  "Get t k =
     (case findNode t k of
        Inl e \<Rightarrow> Inl e
      | Inr None \<Rightarrow> Inr (None, False)
      | Inr (Some node) \<Rightarrow>
          if \<not> hasValue node then Inr (None, False) else Inr (value' node, True))"

text \<open>
  \<^verbatim>\<open>Tree.delete\<close> returns the changed node and the Go result \<^verbatim>\<open>deleted\<close>. After a
  successful recursive call the child is removed when it has neither value nor
  children, and replaced by the merge with its only child when it has no value and
  exactly one child.
\<close>

function delete :: "'v Node \<Rightarrow> string \<Rightarrow> 'v Node \<times> bool" where
  "delete n k =
    (case k of
       [] \<Rightarrow> (n, False)
     | b # _ \<Rightarrow>
        (case map_of (children n) b of
           None \<Rightarrow> (n, False)
         | Some c \<Rightarrow>
            if length k < length (key c) \<or> take (length (key c)) k \<noteq> key c then (n, False)
            else if length k = length (key c)
            then
              (if children c \<noteq> []
               then
                 (if \<not> hasValue c then (n, False)
                  else (setChild n b (Node (key c) None False (children c)), True))
               else (removeChild n b, True))
            else
              (case delete c (drop (length (key c)) k) of
                 (c', deleted) \<Rightarrow>
                   if deleted
                   then
                     (if \<not> hasValue c' \<and> children c' = [] then (removeChild n b, True)
                      else if \<not> hasValue c' \<and> length (children c') = 1
                      then
                        (case children c' of
                           (g, grandchild) # _ \<Rightarrow>
                             (setChild n b
                                (Node (key c' @ key grandchild) (value' grandchild)
                                   (hasValue grandchild) (children grandchild)), True)
                         | [] \<Rightarrow> (setChild n b c', True))
                      else (setChild n b c', True))
                   else (n, False))))"
  by pat_completeness auto
termination
  by (relation "measure (\<lambda>(n, k). size n)") (auto simp: size_child_Node)

declare delete.simps [simp del]

definition Delete :: "'v Tree \<Rightarrow> string \<Rightarrow> 'v Tree \<times> bool" where
  "Delete t k =
     (case delete (root t) k of
        (r, deleted) \<Rightarrow>
          (t\<lparr>root := r, size' := (if deleted then size' t - 1 else size' t)\<rparr>, deleted))"

text \<open>
  \<^verbatim>\<open>Tree.walk\<close>: pre-order, the visitor \<open>fn\<close> answers whether to stop. The result is the
  list of the visitor's calls in order (key and value) and the Go result (stopped).
\<close>

function walk :: "'v Node \<Rightarrow> string \<Rightarrow> (string \<Rightarrow> 'v option \<Rightarrow> bool)
      \<Rightarrow> (string \<times> 'v option) list \<times> bool"
  and walkChildren :: "(char \<times> 'v Node) list \<Rightarrow> string \<Rightarrow> (string \<Rightarrow> 'v option \<Rightarrow> bool)
      \<Rightarrow> (string \<times> 'v option) list \<times> bool"
where
  "walk n prefix fn =
     (if hasValue n \<and> fn (prefix @ key n) (value' n) then ([(prefix @ key n, value' n)], True)
      else
        (case walkChildren (children n) (prefix @ key n) fn of
           (calls, stopped) \<Rightarrow>
             ((if hasValue n then [(prefix @ key n, value' n)] else []) @ calls, stopped)))"
| "walkChildren [] prefix fn = ([], False)"
| "walkChildren (bc # rest) prefix fn =
     (case walk (snd bc) prefix fn of
        (calls, stopped) \<Rightarrow>
          if stopped then (calls, True)
          else
            (case walkChildren rest prefix fn of
               (calls', stopped') \<Rightarrow> (calls @ calls', stopped')))"
  by pat_completeness auto
termination
  by (relation "measure (\<lambda>x. case x of
          Inl (n, _, _) \<Rightarrow> 2 * size n
        | Inr (cs, _, _) \<Rightarrow> 2 * size_list (size_prod (\<lambda>_. 0) size) cs + 1)")
     (auto simp: size_children intro: le_less_trans [OF mult_le_mono2 [OF size_snd]])

declare walk.simps(1) [simp del]

definition Walk :: "'v Tree \<Rightarrow> (string \<Rightarrow> 'v option \<Rightarrow> bool) \<Rightarrow> (string \<times> 'v option) list" where
  "Walk t fn = fst (walk (root t) [] fn)"

text \<open>A sequence of calls of \<^verbatim>\<open>Insert\<close> and \<^verbatim>\<open>Delete\<close>, stopped by the first panic.\<close>

datatype 'v tree_op = OpInsert string "'v option" | OpDelete string

fun apply_op :: "'v Tree \<Rightarrow> 'v tree_op \<Rightarrow> panic + 'v Tree" where
  "apply_op t (OpInsert k v) = Insert t k v"
| "apply_op t (OpDelete k) = Inr (fst (Delete t k))"

fun apply_ops :: "'v Tree \<Rightarrow> 'v tree_op list \<Rightarrow> panic + 'v Tree" where
  "apply_ops t [] = Inr t"
| "apply_ops t (x # xs) =
     (case apply_op t x of Inl e \<Rightarrow> Inl e | Inr t' \<Rightarrow> apply_ops t' xs)"


section \<open>The radix tree: entries, invariant and compression\<close>

lemma size_in_children: "bc \<in> set (children n) \<Longrightarrow> size (snd bc) < size n"
proof -
  assume "bc \<in> set (children n)"
  then have "size_prod (\<lambda>_. 0) size bc \<le> size_list (size_prod (\<lambda>_. 0) size) (children n)"
    by (simp add: size_list_estimation')
  with size_snd [of bc] size_children [of n] show ?thesis by linarith
qed

lemma size_in_children_Node:
  fixes cs :: "(char \<times> 'v Node) list" and v :: "'v option"
  shows "(a, b) \<in> set cs \<Longrightarrow> size b < Suc (size v + size_list (size_prod (\<lambda>x. 0) size) cs)"
  using size_in_children [of "(a, b)" "Node [] v False cs"] by simp

text \<open>
  The entries of a node: the pairs (key, value) of the valued nodes of its subtree, keys
  spelled from the node's own segment on. \<open>below n\<close> are the entries of the children,
  spelled from below \<open>n\<close>.
\<close>

function items :: "'v Node \<Rightarrow> (string \<times> 'v option) list" where
  "items (Node k v h cs) =
     (if h then [(k, v)] else []) @
     map (\<lambda>e. (k @ fst e, snd e)) (concat (map (\<lambda>bc. items (snd bc)) cs))"
  by pat_completeness auto
termination
  by (relation "measure size") (auto simp: size_in_children_Node)

definition below :: "'v Node \<Rightarrow> (string \<times> 'v option) list" where
  "below n = concat (map (\<lambda>bc. items (snd bc)) (children n))"

text \<open>
  The invariant of the map of children: one entry per byte, and the child stored under a
  byte has a non-empty key that starts with this byte.
\<close>

function wf :: "'v Node \<Rightarrow> bool" where
  "wf (Node k v h cs) =
     (distinct (map fst cs) \<and>
      list_all (\<lambda>bc. key (snd bc) \<noteq> [] \<and> hd (key (snd bc)) = fst bc \<and> wf (snd bc)) cs)"
  by pat_completeness auto
termination
  by (relation "measure size") (auto simp: size_in_children_Node)

text \<open>
  Path compression: below the root no node without a value has exactly one child (such a
  node is merged with its child).
\<close>

definition mergeable :: "'v Node \<Rightarrow> bool" where
  "mergeable c = (\<not> hasValue c \<and> length (children c) = 1)"

function compressed :: "'v Node \<Rightarrow> bool" where
  "compressed (Node k v h cs) =
     list_all (\<lambda>bc. \<not> mergeable (snd bc) \<and> compressed (snd bc)) cs"
  by pat_completeness auto
termination
  by (relation "measure size") (auto simp: size_in_children_Node)


section \<open>WorkerPool\<close>

text \<open>
  \<^verbatim>\<open>wg\<close> is the counter of the wait group. A call that can suspend its goroutine or panic
  ends in one of three ways: it returns a result and the new state, it blocks in the
  given state (the goroutine resumes the pending operation when the channel allows it),
  or it panics.
\<close>

datatype ('s, 'r) call = Returns 'r 's | Blocks 's | Panics panic

record 't WorkerPool =
  tasks :: "'t chan"
  wg :: int
  poolSize :: int

text \<open>
  \<^verbatim>\<open>NewWorkerPool\<close>: \<^verbatim>\<open>make(chan func(), size*10)\<close> panics on a negative size; the
  \<^verbatim>\<open>size\<close> workers it starts are the \<open>workerReceive\<close> steps below.
\<close>

definition NewWorkerPool :: "int \<Rightarrow> panic + 't WorkerPool" where
  "NewWorkerPool sz =
     (if sz * 10 < 0 then Inl MakeSizeOutOfRange
      else Inr \<lparr>tasks = makeChan (nat (sz * 10)), wg = 0, poolSize = sz\<rparr>)"

text \<open>
  \<^verbatim>\<open>Submit\<close>: \<^verbatim>\<open>wg.Add(1)\<close>, the send \<^verbatim>\<open>wp.tasks <- task\<close>, \<^verbatim>\<open>return nil\<close>. The
  returned error is \<open>None\<close> for \<^verbatim>\<open>nil\<close> and \<open>Some msg\<close> otherwise.
\<close>

definition Submit :: "'t WorkerPool \<Rightarrow> 't \<Rightarrow> ('t WorkerPool, string option) call" where
  "Submit wp task =
     (let wp1 = wp\<lparr>wg := wg wp + 1\<rparr> in
      case chanSend (tasks wp1) task of
        Sent ch \<Rightarrow> Returns None (wp1\<lparr>tasks := ch\<rparr>)
      | Full \<Rightarrow> Blocks wp1
      | ClosedChan \<Rightarrow> Panics SendOnClosedChannel)"

text \<open>
  A blocked \<^verbatim>\<open>Submit\<close> resumes at its send: when the send goes through, the call returns
  \<^verbatim>\<open>nil\<close>.
\<close>

definition resumeSubmit :: "'t WorkerPool \<Rightarrow> 't \<Rightarrow> ('t WorkerPool, string option) call" where
  "resumeSubmit wp1 task =
     (case chanSend (tasks wp1) task of
        Sent ch \<Rightarrow> Returns None (wp1\<lparr>tasks := ch\<rparr>)
      | Full \<Rightarrow> Blocks wp1
      | ClosedChan \<Rightarrow> Panics SendOnClosedChannel)"

text \<open>
  One iteration of \<^verbatim>\<open>worker\<close>: receive a task, run it, \<^verbatim>\<open>wg.Done()\<close>. Without a task
  (\<open>None\<close>) the worker waits, or leaves its loop when the channel is closed.
\<close>

definition workerReceive :: "'t WorkerPool \<Rightarrow> 't option \<times> 't WorkerPool" where
  "workerReceive wp =
     (case chanRecv (tasks wp) of
        Received task ch \<Rightarrow> (Some task, wp\<lparr>tasks := ch, wg := wg wp - 1\<rparr>)
      | Ended \<Rightarrow> (None, wp)
      | Empty \<Rightarrow> (None, wp))"

text \<open>
  \<^verbatim>\<open>Shutdown\<close>: \<^verbatim>\<open>wg.Wait()\<close> blocks while the counter is positive; then the channel is
  closed.
\<close>

definition Shutdown :: "'t WorkerPool \<Rightarrow> ('t WorkerPool, unit) call" where
  "Shutdown wp =
     (if wg wp > 0 then Blocks wp
      else case chanClose (tasks wp) of
             Inl e \<Rightarrow> Panics e
           | Inr ch \<Rightarrow> Returns () (wp\<lparr>tasks := ch\<rparr>))"


section \<open>Router\<close>

text \<open>
  A route holds its method, its pattern and its handler; handlers are opaque values of
  type \<open>'h\<close>, a middleware maps a handler to a handler. Static routes live in the radix
  tree, dynamic ones in a list in registration order.
\<close>

record 'h route =
  method' :: string
  pattern :: string
  handler :: "'h"

record 'h Router =
  staticRoutes :: "'h route Tree"
  dynamicRoutes :: "'h route list"
  middlewares :: "('h \<Rightarrow> 'h) list"
  workerPool :: "'h WorkerPool option"
  rateLimiter :: "RateLimiter option"

definition NewRouter :: "'h Router" where
  "NewRouter =
     \<lparr>staticRoutes = New, dynamicRoutes = [], middlewares = [],
      workerPool = None, rateLimiter = None\<rparr>"

text \<open>
  \<^verbatim>\<open>splitPath\<close> is \<^verbatim>\<open>strings.FieldsFunc\<close> with the separator \<^verbatim>\<open>/\<close>: the maximal runs of
  bytes other than \<^verbatim>\<open>/\<close>, in order. (\<^verbatim>\<open>FieldsFunc\<close> decodes runes; \<^verbatim>\<open>/\<close> is ASCII and no
  byte of a longer UTF-8 sequence equals it, so splitting bytes gives the same fields.)
  \<open>fieldsFrom cur s\<close> scans \<open>s\<close> with the field read so far in \<open>cur\<close>.
\<close>

fun fieldsFrom :: "string \<Rightarrow> string \<Rightarrow> string list" where
  "fieldsFrom cur [] = (if cur = [] then [] else [cur])"
| "fieldsFrom cur (c # cs) =
     (if c = CHR ''/''
      then (if cur = [] then fieldsFrom [] cs else cur # fieldsFrom [] cs)
      else fieldsFrom (cur @ [c]) cs)"

definition splitPath :: "string \<Rightarrow> string list" where
  "splitPath path = fieldsFrom [] path"

text \<open>
  \<^verbatim>\<open>matchPattern\<close>: \<open>None\<close> is the Go result \<^verbatim>\<open>(nil, false)\<close>, \<open>Some params\<close> is
  \<^verbatim>\<open>(params, true)\<close>. The loop runs over the pattern's parts with the path's part at the
  same index (the lengths are equal when the loop starts).
\<close>

fun matchParts :: "(string \<times> string) list \<Rightarrow> (string \<rightharpoonup> string) \<Rightarrow> (string \<rightharpoonup> string) option" where
  "matchParts [] params = Some params"
| "matchParts ((part, seg) # rest) params =
     (if length part > 0 \<and> part ! 0 = CHR '':''
      then matchParts rest (params(drop 1 part \<mapsto> seg))
      else if part \<noteq> seg then None
      else matchParts rest params)"

definition matchPattern :: "string \<Rightarrow> string \<Rightarrow> (string \<rightharpoonup> string) option" where
  "matchPattern pat path =
     (let patternParts = splitPath pat; pathParts = splitPath path in
      if length patternParts \<noteq> length pathParts then None
      else matchParts (zip patternParts pathParts) Map.empty)"

text \<open>\<^verbatim>\<open>strings.ContainsAny(pattern, ":*")\<close>.\<close>

definition containsColonOrStar :: "string \<Rightarrow> bool" where
  "containsColonOrStar s = list_ex (\<lambda>c. c = CHR '':'' \<or> c = CHR ''*'') s"

text \<open>\<^verbatim>\<open>Router.Handle\<close>: a pattern without \<^verbatim>\<open>:\<close> and \<^verbatim>\<open>*\<close> is static, any other dynamic.\<close>

definition Handle :: "'h Router \<Rightarrow> string \<Rightarrow> string \<Rightarrow> 'h \<Rightarrow> panic + 'h Router" where
  "Handle r m pat h =
     (let rt = \<lparr>method' = m, pattern = pat, handler = h\<rparr> in
      if \<not> containsColonOrStar pat
      then
        (case Insert (staticRoutes r) pat (Some rt) of
           Inl e \<Rightarrow> Inl e
         | Inr t \<Rightarrow> Inr (r\<lparr>staticRoutes := t\<rparr>))
      else Inr (r\<lparr>dynamicRoutes := dynamicRoutes r @ [rt]\<rparr>))"

text \<open>
  \<^verbatim>\<open>executeHandler\<close>: wrap the handler in the middlewares (last registered innermost), ask
  the rate limiter, then submit to the worker pool or run inline. What happened to the
  request:
\<close>

datatype 'h exec =
    RunsInline "'h"
  | RunsOnPool "'h"
  | TooManyRequests
  | ServiceUnavailable
  | SubmitBlocks
  | ExecPanics panic

definition executeHandler :: "'h Router \<Rightarrow> 'h \<Rightarrow> 'h exec \<times> 'h Router" where
  "executeHandler r h =
     (let finalHandler = foldr (\<lambda>m f. m f) (middlewares r) h;
          gate = (case rateLimiter r of None \<Rightarrow> (True, None) | Some rl \<Rightarrow> (fst (Allow rl), Some (snd (Allow rl))));
          r1 = r\<lparr>rateLimiter := snd gate\<rparr>
      in
      if \<not> fst gate then (TooManyRequests, r1)
      else
        (case workerPool r1 of
           None \<Rightarrow> (RunsInline finalHandler, r1)
         | Some wp \<Rightarrow>
            (case Submit wp finalHandler of
               Returns err wp' \<Rightarrow>
                 (if err \<noteq> None then (ServiceUnavailable, r1\<lparr>workerPool := Some wp'\<rparr>)
                  else (RunsOnPool finalHandler, r1\<lparr>workerPool := Some wp'\<rparr>))
             | Blocks wp' \<Rightarrow> (SubmitBlocks, r1\<lparr>workerPool := Some wp'\<rparr>)
             | Panics e \<Rightarrow> (ExecPanics e, r1))))"

text \<open>
  \<^verbatim>\<open>ServeHTTP\<close>. A request is its method and its URL path. The answer is the dispatch
  of a handler (with the captured parameters put into the request context: \<open>None\<close> for a
  static route), 405 with the \<^verbatim>\<open>Allow\<close> header, or 404.
\<close>

record Request =
  Method :: string
  Path :: string

datatype 'h served =
    Dispatched "(string \<rightharpoonup> string) option" "'h exec"
  | MethodNotAllowed string
  | NotFound
  | ServePanics panic

fun scanDynamic :: "'h route list \<Rightarrow> Request \<Rightarrow> ('h route \<times> (string \<rightharpoonup> string)) option" where
  "scanDynamic [] req = None"
| "scanDynamic (rt # rest) req =
     (case matchPattern (pattern rt) (Path req) of
        Some params \<Rightarrow>
          if method' rt = Method req \<or> Method req = ''OPTIONS'' then Some (rt, params)
          else scanDynamic rest req
      | None \<Rightarrow> scanDynamic rest req)"

definition ServeHTTP :: "'h Router \<Rightarrow> Request \<Rightarrow> 'h served \<times> 'h Router" where
  "ServeHTTP r req =
     (case Get (staticRoutes r) (Path req) of
        Inl e \<Rightarrow> (ServePanics e, r)
      | Inr (v, True) \<Rightarrow>
          (case v of
             None \<Rightarrow> (ServePanics TypeAssertionFailed, r)
           | Some rt \<Rightarrow>
               if method' rt = Method req \<or> Method req = ''OPTIONS''
               then (case executeHandler r (handler rt) of (x, r') \<Rightarrow> (Dispatched None x, r'))
               else (MethodNotAllowed (method' rt), r))
      | Inr (v, False) \<Rightarrow>
          (case scanDynamic (dynamicRoutes r) req of
             Some (rt, params) \<Rightarrow>
               (case executeHandler r (handler rt) of (x, r') \<Rightarrow> (Dispatched (Some params) x, r'))
           | None \<Rightarrow> (NotFound, r)))"


section \<open>WebSocket frames\<close>

type_synonym byte = "8 word"

definition OpContinuation :: byte where "OpContinuation = 0x0"
definition OpText :: byte where "OpText = 0x1"
definition OpBinary :: byte where "OpBinary = 0x2"
definition OpClose :: byte where "OpClose = 0x8"
definition OpPing :: byte where "OpPing = 0x9"
definition OpPong :: byte where "OpPong = 0xA"

definition supportedOpcodes :: "byte list" where
  "supportedOpcodes = [OpContinuation, OpText, OpBinary, OpClose, OpPing, OpPong]"

text \<open>
  The result of a call that returns a Go \<^verbatim>\<open>error\<close>: the value, the error (its message),
  or a run-time panic.
\<close>

datatype 'a result = Ok 'a | Failed string | Panicked panic

text \<open>
  The reader is the sequence of bytes still to come, its end being the end of the stream.
  \<^verbatim>\<open>io.ReadFull\<close> for a buffer of \<open>n\<close> bytes: the bytes and the rest, or \<^verbatim>\<open>EOF\<close> when no
  byte was left and \<^verbatim>\<open>unexpected EOF\<close> when too few were (the reader is then drained).
\<close>

definition ReadFull :: "nat \<Rightarrow> byte list \<Rightarrow> (string + byte list) \<times> byte list" where
  "ReadFull n r =
     (if n \<le> length r then (Inr (take n r), drop n r)
      else if r = [] then (Inl ''EOF'', [])
      else (Inl ''unexpected EOF'', []))"

text \<open>\<^verbatim>\<open>binary.BigEndian\<close>: \<^verbatim>\<open>Uint16\<close>, \<^verbatim>\<open>Uint64\<close>, \<^verbatim>\<open>PutUint16\<close>, \<^verbatim>\<open>PutUint64\<close>.\<close>

definition Uint16 :: "byte list \<Rightarrow> 16 word" where
  "Uint16 b = ucast (b ! 1) OR push_bit 8 (ucast (b ! 0))"

definition Uint64 :: "byte list \<Rightarrow> 64 word" where
  "Uint64 b =
     ucast (b ! 7) OR push_bit 8 (ucast (b ! 6)) OR push_bit 16 (ucast (b ! 5))
     OR push_bit 24 (ucast (b ! 4)) OR push_bit 32 (ucast (b ! 3)) OR push_bit 40 (ucast (b ! 2))
     OR push_bit 48 (ucast (b ! 1)) OR push_bit 56 (ucast (b ! 0))"

definition PutUint16 :: "16 word \<Rightarrow> byte list" where
  "PutUint16 v = [ucast (drop_bit 8 v), ucast v]"

definition PutUint64 :: "64 word \<Rightarrow> byte list" where
  "PutUint64 v =
     [ucast (drop_bit 56 v), ucast (drop_bit 48 v), ucast (drop_bit 40 v), ucast (drop_bit 32 v),
      ucast (drop_bit 24 v), ucast (drop_bit 16 v), ucast (drop_bit 8 v), ucast v]"

text \<open>The unmasking loop: \<^verbatim>\<open>payload[i] ^= maskingKey[i%4]\<close> for every index.\<close>

definition unmask :: "byte list \<Rightarrow> byte list \<Rightarrow> byte list" where
  "unmask maskingKey payload =
     map (\<lambda>i. (payload ! i) XOR (maskingKey ! (i mod 4))) [0..<length payload]"

text \<open>
  \<^verbatim>\<open>readFrame\<close>, with the reader passed in and the rest of it returned. The length read
  from the wire is converted to \<^verbatim>\<open>int64\<close>; \<^verbatim>\<open>make\<close> panics when it is negative.
\<close>

definition readExtendedLen :: "64 word \<Rightarrow> byte list \<Rightarrow> (string + 64 word) \<times> byte list" where
  "readExtendedLen payloadLen r =
     (if payloadLen = 126 then
        (case ReadFull 2 r of
           (Inl e, r') \<Rightarrow> (Inl e, r')
         | (Inr extendedLen, r') \<Rightarrow> (Inr (ucast (Uint16 extendedLen)), r'))
      else if payloadLen = 127 then
        (case ReadFull 8 r of
           (Inl e, r') \<Rightarrow> (Inl e, r')
         | (Inr extendedLen, r') \<Rightarrow> (Inr (Uint64 extendedLen), r'))
      else (Inr payloadLen, r))"

definition readMaskingKey :: "bool \<Rightarrow> byte list \<Rightarrow> (string + byte list option) \<times> byte list" where
  "readMaskingKey masked r =
     (if masked then
        (case ReadFull 4 r of
           (Inl e, r') \<Rightarrow> (Inl e, r')
         | (Inr maskingKey, r') \<Rightarrow> (Inr (Some maskingKey), r'))
      else (Inr None, r))"

definition readFrame :: "byte list \<Rightarrow> (byte \<times> byte list) result \<times> byte list" where
  "readFrame r =
     (case ReadFull 1 r of
        (Inl e, r1) \<Rightarrow> (Failed e, r1)
      | (Inr firstByte, r1) \<Rightarrow>
     (let fin = ((firstByte ! 0) AND 0x80 \<noteq> 0);
          opcode = (firstByte ! 0) AND 0x0F
      in
      case ReadFull 1 r1 of
        (Inl e, r2) \<Rightarrow> (Failed e, r2)
      | (Inr secondByte, r2) \<Rightarrow>
     (let masked = ((secondByte ! 0) AND 0x80 \<noteq> 0)
      in
      case readExtendedLen (ucast ((secondByte ! 0) AND 0x7F)) r2 of
        (Inl e, r3) \<Rightarrow> (Failed e, r3)
      | (Inr payloadLen, r3) \<Rightarrow>
     (case readMaskingKey masked r3 of
        (Inl e, r4) \<Rightarrow> (Failed e, r4)
      | (Inr maskingKey, r4) \<Rightarrow>
     (if sint payloadLen < 0 then (Panicked MakeSizeOutOfRange, r4)
      else
        case ReadFull (nat (sint payloadLen)) r4 of
          (Inl e, r5) \<Rightarrow> (Failed e, r5)
        | (Inr payload, r5) \<Rightarrow>
       (let payload' = (case maskingKey of Some k \<Rightarrow> unmask k payload | None \<Rightarrow> payload)
        in
        if \<not> fin then (Failed ''fragmented messages not supported'', r5)
        else (Ok (opcode, payload'), r5)))))))"

text \<open>
  The writer: the bytes written so far, and for how many more \<^verbatim>\<open>Write\<close> calls it works
  (\<open>None\<close>: it never fails). \<^verbatim>\<open>writeFrame\<close> returns at the first failed \<^verbatim>\<open>Write\<close>.
\<close>

record writer =
  written :: "byte list"
  budget :: "nat option"

definition Write :: "byte list \<Rightarrow> writer \<Rightarrow> string option \<times> writer" where
  "Write bs w =
     (case budget w of
        None \<Rightarrow> (None, w\<lparr>written := written w @ bs\<rparr>)
      | Some 0 \<Rightarrow> (Some ''write failed'', w)
      | Some (Suc n) \<Rightarrow> (None, w\<lparr>written := written w @ bs, budget := Some n\<rparr>))"

definition writeFrame :: "byte \<Rightarrow> byte list \<Rightarrow> writer \<Rightarrow> string option \<times> writer" where
  "writeFrame opcode payload w =
     (let firstByte = 0x80 OR (opcode AND 0x0F) in
      case Write [firstByte] w of
        (Some e, w1) \<Rightarrow> (Some e, w1)
      | (None, w1) \<Rightarrow>
     (let len = length payload;
          secondByte = (if len < 126 then word_of_nat len else if len \<le> 65535 then 126 else 127);
          extendedLength =
            (if len < 126 then None
             else if len \<le> 65535 then Some (PutUint16 (word_of_nat len))
             else Some (PutUint64 (word_of_nat len)))
      in
      case Write [secondByte] w1 of
        (Some e, w2) \<Rightarrow> (Some e, w2)
      | (None, w2) \<Rightarrow>
     (case (case extendedLength of
              None \<Rightarrow> (None, w2)
            | Some ext \<Rightarrow> Write ext w2) of
        (Some e, w3) \<Rightarrow> (Some e, w3)
      | (None, w3) \<Rightarrow>
     (case Write payload w3 of
        (Some e, w4) \<Rightarrow> (Some e, w4)
      | (None, w4) \<Rightarrow> (None, w4)))))"

text \<open>
  The bytes of a final, unmasked frame on the wire: the first byte, the length byte, the
  extended length if any, the payload.
\<close>

definition frameBytes :: "byte \<Rightarrow> byte list \<Rightarrow> byte list" where
  "frameBytes opcode payload =
     (0x80 OR (opcode AND 0x0F)) #
     (if length payload < 126 then [word_of_nat (length payload)]
      else if length payload \<le> 65535 then 126 # PutUint16 (word_of_nat (length payload))
      else 127 # PutUint64 (word_of_nat (length payload)))
     @ payload"


section \<open>WebSocket connections\<close>

text \<open>
  \<^verbatim>\<open>websocketConnection\<close> owns the raw stream: \<open>netConnCloses\<close> counts the calls of
  \<^verbatim>\<open>netConn.Close()\<close>, \<open>closeOnce\<close> tells whether the \<^verbatim>\<open>sync.Once\<close> has run.
  \<^verbatim>\<open>WebSocketConn\<close> is the wrapper given to the application; its \<open>conn\<close> may be nil.
  The methods hold the mutex of their receiver from entry to return, so each call is one
  atomic step on the state.
\<close>

record websocketConnection =
  netConnCloses :: nat
  bufReader :: "byte list"
  bufWriter :: writer
  closeChan :: "unit chan"
  closeOnce :: bool
  isClosed :: bool

record WebSocketConn =
  conn :: "websocketConnection option"
  SendChan :: "byte list chan"
  ReceiveChan :: "byte list chan"
  Closed :: bool

text \<open>\<^verbatim>\<open>websocketConnection.close\<close>.\<close>

definition close :: "websocketConnection \<Rightarrow> panic + websocketConnection" where
  "close c =
     (if \<not> isClosed c then
        (if \<not> closeOnce c then
           (case chanClose (closeChan c) of
              Inl e \<Rightarrow> Inl e
            | Inr ch \<Rightarrow>
                Inr (c\<lparr>closeOnce := True, closeChan := ch, isClosed := True,
                       netConnCloses := netConnCloses c + 1\<rparr>))
         else Inr c)
      else Inr c)"

text \<open>\<^verbatim>\<open>WebSocketConn.Close\<close>.\<close>

definition Close :: "WebSocketConn \<Rightarrow> panic + WebSocketConn" where
  "Close wsc =
     (if \<not> Closed wsc then
        (case chanClose (SendChan wsc) of
           Inl e \<Rightarrow> Inl e
         | Inr ch \<Rightarrow>
             (let wsc1 = wsc\<lparr>Closed := True, SendChan := ch\<rparr> in
              case conn wsc1 of
                None \<Rightarrow> Inr wsc1
              | Some c \<Rightarrow>
                  (case close c of
                     Inl e \<Rightarrow> Inl e
                   | Inr c' \<Rightarrow> Inr (wsc1\<lparr>conn := Some c'\<rparr>))))
      else Inr wsc)"

text \<open>
  \<^verbatim>\<open>WebSocketConn.Send\<close>: the returned error is \<open>None\<close> for \<^verbatim>\<open>nil\<close>. The send on
  \<^verbatim>\<open>SendChan\<close> sits in a \<^verbatim>\<open>select\<close> with a \<^verbatim>\<open>default\<close>.
\<close>

definition Send :: "WebSocketConn \<Rightarrow> byte list \<Rightarrow> panic + (string option \<times> WebSocketConn)" where
  "Send wsc message =
     (if Closed wsc then Inr (Some ''connection closed'', wsc)
      else
        case chanSend (SendChan wsc) message of
          Sent ch \<Rightarrow> Inr (None, wsc\<lparr>SendChan := ch\<rparr>)
        | Full \<Rightarrow> Inr (Some ''send buffer full'', wsc)
        | ClosedChan \<Rightarrow> Inl SendOnClosedChannel)"

text \<open>
  The connection as \<^verbatim>\<open>upgradeToWebSocket\<close> and the handler of \<^verbatim>\<open>WEBSOCKET\<close> build it,
  over the bytes the peer will send and a writer.
\<close>

definition upgradeToWebSocket :: "byte list \<Rightarrow> writer \<Rightarrow> websocketConnection" where
  "upgradeToWebSocket input w =
     \<lparr>netConnCloses = 0, bufReader = input, bufWriter = w, closeChan = makeChan 0,
      closeOnce = False, isClosed = False\<rparr>"

definition WEBSOCKET :: "byte list \<Rightarrow> writer \<Rightarrow> WebSocketConn" where
  "WEBSOCKET input w =
     \<lparr>conn = Some (upgradeToWebSocket input w), SendChan = makeChan 256,
      ReceiveChan = makeChan 256, Closed = False\<rparr>"

text \<open>A frame that was read took at least its two header bytes from the reader.\<close>

lemma ReadFull_Inr: "ReadFull n r = (Inr a, r') \<Longrightarrow> n \<le> length r \<and> r' = drop n r"
  by (auto simp: ReadFull_def split: if_splits)

lemma readExtendedLen_Inr: "readExtendedLen l r = (Inr l', r') \<Longrightarrow> length r' \<le> length r"
  by (auto simp: readExtendedLen_def split: if_splits prod.splits sum.splits dest!: ReadFull_Inr)

lemma readMaskingKey_Inr: "readMaskingKey m r = (Inr k, r') \<Longrightarrow> length r' \<le> length r"
  by (auto simp: readMaskingKey_def split: if_splits prod.splits sum.splits dest!: ReadFull_Inr)

lemma readFrame_Ok:
  assumes "readFrame r = (Ok x, r')"
  shows "length r' < length r"
proof -
  from assms obtain fb r1 sb r2 l r3 k r4 p where
    1: "ReadFull 1 r = (Inr fb, r1)" and 2: "ReadFull 1 r1 = (Inr sb, r2)"
    and 3: "readExtendedLen (ucast ((sb ! 0) AND 0x7F)) r2 = (Inr l, r3)"
    and 4: "readMaskingKey ((sb ! 0) AND 0x80 \<noteq> 0) r3 = (Inr k, r4)"
    and 5: "ReadFull (nat (sint l)) r4 = (Inr p, r')"
    by (auto simp: readFrame_def Let_def split: prod.splits sum.splits if_splits)
  have "length r1 < length r" using ReadFull_Inr [OF 1] by auto
  moreover have "length r2 \<le> length r1" using ReadFull_Inr [OF 2] by auto
  moreover have "length r3 \<le> length r2" using readExtendedLen_Inr [OF 3] .
  moreover have "length r4 \<le> length r3" using readMaskingKey_Inr [OF 4] .
  moreover have "length r' \<le> length r4" using ReadFull_Inr [OF 5] by auto
  ultimately show ?thesis by linarith
qed

text \<open>
  \<^verbatim>\<open>readPump\<close>: the loop, then the deferred \<^verbatim>\<open>wsc.Close()\<close>. The \<^verbatim>\<open>select\<close> on
  \<^verbatim>\<open>closeChan\<close> (on which nothing is ever sent) is ready when the channel has been
  closed. The loop ends at the first frame that cannot be read, the end of the stream
  included; the error of the pong's \<^verbatim>\<open>writeFrame\<close> is ignored.
\<close>

function readPumpLoop :: "WebSocketConn \<Rightarrow> panic + WebSocketConn" where
  "readPumpLoop wsc =
     (case conn wsc of
        None \<Rightarrow> Inl NilPointerDereference
      | Some c \<Rightarrow>
          if closed (closeChan c) then Inr wsc
          else
            (case readFrame (bufReader c) of
               (Panicked e, r) \<Rightarrow> Inl e
             | (Failed e, r) \<Rightarrow> Inr (wsc\<lparr>conn := Some (c\<lparr>bufReader := r\<rparr>)\<rparr>)
             | (Ok (opcode, payload), r) \<Rightarrow>
                 if opcode = OpText \<or> opcode = OpBinary then
                   (case chanSend (ReceiveChan wsc) payload of
                      Sent ch \<Rightarrow>
                        readPumpLoop (wsc\<lparr>conn := Some (c\<lparr>bufReader := r\<rparr>), ReceiveChan := ch\<rparr>)
                    | Full \<Rightarrow> readPumpLoop (wsc\<lparr>conn := Some (c\<lparr>bufReader := r\<rparr>)\<rparr>)
                    | ClosedChan \<Rightarrow> Inl SendOnClosedChannel)
                 else if opcode = OpPing then
                   readPumpLoop
                     (wsc\<lparr>conn := Some (c\<lparr>bufReader := r,
                                            bufWriter := snd (writeFrame OpPong payload (bufWriter c))\<rparr>)\<rparr>)
                 else if opcode = OpPong then
                   readPumpLoop (wsc\<lparr>conn := Some (c\<lparr>bufReader := r\<rparr>)\<rparr>)
                 else if opcode = OpClose then
                   Close (wsc\<lparr>conn := Some (c\<lparr>bufReader := r\<rparr>)\<rparr>)
                 else readPumpLoop (wsc\<lparr>conn := Some (c\<lparr>bufReader := r\<rparr>)\<rparr>)))"
  by pat_completeness auto
termination
  by (relation "measure (\<lambda>wsc. case conn wsc of None \<Rightarrow> 0 | Some c \<Rightarrow> length (bufReader c))")
     (auto dest!: readFrame_Ok [OF sym])

declare readPumpLoop.simps [simp del]

definition readPump :: "WebSocketConn \<Rightarrow> panic + WebSocketConn" where
  "readPump wsc =
     (case readPumpLoop wsc of
        Inl e \<Rightarrow> Inl e
      | Inr wsc' \<Rightarrow> Close wsc')"

text \<open>
  The calls the application and the pumps make on a connection, one after the other, and
  what each returned.
\<close>

datatype ws_op = DoSend "byte list" | DoClose

datatype ws_ret = SendReturned "string option" | CloseReturned

fun ws_run :: "ws_op list \<Rightarrow> WebSocketConn \<Rightarrow> panic + (ws_ret list \<times> WebSocketConn)" where
  "ws_run [] wsc = Inr ([], wsc)"
| "ws_run (DoSend m # ops) wsc =
     (case Send wsc m of
        Inl e \<Rightarrow> Inl e
      | Inr (err, wsc') \<Rightarrow>
          (case ws_run ops wsc' of
             Inl e \<Rightarrow> Inl e
           | Inr (rs, w) \<Rightarrow> Inr (SendReturned err # rs, w)))"
| "ws_run (DoClose # ops) wsc =
     (case Close wsc of
        Inl e \<Rightarrow> Inl e
      | Inr wsc' \<Rightarrow>
          (case ws_run ops wsc' of
             Inl e \<Rightarrow> Inl e
           | Inr (rs, w) \<Rightarrow> Inr (CloseReturned # rs, w)))"

text \<open>What a call returns on a closed connection.\<close>

definition closedAnswer :: "ws_op \<Rightarrow> ws_ret" where
  "closedAnswer op =
     (case op of
        DoSend m \<Rightarrow> SendReturned (Some ''connection closed'')
      | DoClose \<Rightarrow> CloseReturned)"

text \<open>
  The states a connection built by \<^verbatim>\<open>WEBSOCKET\<close> passes through: the flags and the
  channels agree, and the stream has been released once exactly when the connection is
  closed.
\<close>

definition ws_inv :: "WebSocketConn \<Rightarrow> bool" where
  "ws_inv wsc =
     (case conn wsc of
        None \<Rightarrow> False
      | Some c \<Rightarrow>
          closed (SendChan wsc) = Closed wsc \<and> isClosed c = Closed wsc
          \<and> closeOnce c = Closed wsc \<and> closed (closeChan c) = Closed wsc
          \<and> netConnCloses c = (if Closed wsc then 1 else 0))"


chapter \<open>Properties\<close>

section \<open>RateLimiter: properties\<close>

lemma allowN_Suc:
  "allowN (Suc n) rl =
     (fst (Allow rl) # fst (allowN n (snd (Allow rl))), snd (allowN n (snd (Allow rl))))"
  by (simp split: prod.splits)

lemma allowN_answers:
  "0 \<le> tokens rl \<Longrightarrow>
     fst (allowN n rl) = replicate (min n (nat (tokens rl))) True @ replicate (n - nat (tokens rl)) False"
proof (induction n arbitrary: rl)
  case 0
  then show ?case by simp
next
  case (Suc n)
  show ?case
  proof (cases "tokens rl > 0")
    case True
    define t where "t = nat (tokens rl - 1)"
    from True have t: "nat (tokens rl) = Suc t" by (simp add: t_def)
    from True have "0 \<le> tokens (rl\<lparr>tokens := tokens rl - 1\<rparr>)" by simp
    from Suc.IH [OF this] True t show ?thesis
      by (simp add: allowN_Suc Allow_def t_def del: allowN.simps)
  next
    case False
    with Suc.prems have z: "tokens rl = 0" by simp
    from Suc.IH [OF Suc.prems] False z show ?thesis
      by (simp add: allowN_Suc Allow_def replicate_append_same del: allowN.simps)
  qed
qed

lemma allowN_tokens:
  "0 \<le> tokens rl \<Longrightarrow> tokens (snd (allowN n rl)) = max 0 (tokens rl - int n)"
proof (induction n arbitrary: rl)
  case 0
  then show ?case by simp
next
  case (Suc n)
  show ?case
  proof (cases "tokens rl > 0")
    case True
    then have "0 \<le> tokens (rl\<lparr>tokens := tokens rl - 1\<rparr>)" by simp
    from Suc.IH [OF this] True show ?thesis
      by (simp add: allowN_Suc Allow_def algebra_simps del: allowN.simps)
  next
    case False
    from Suc.IH [OF Suc.prems] False Suc.prems show ?thesis
      by (simp add: allowN_Suc Allow_def del: allowN.simps)
  qed
qed

lemma allowN_maxTokens: "maxTokens (snd (allowN n rl)) = maxTokens rl"
  by (induction n arbitrary: rl) (simp_all add: allowN_Suc Allow_def del: allowN.simps(2))

lemma rl_step_bounds:
  "0 \<le> maxTokens rl \<Longrightarrow> 0 \<le> tokens rl \<and> tokens rl \<le> maxTokens rl \<Longrightarrow>
     maxTokens (rl_step rl ev) = maxTokens rl \<and>
     0 \<le> tokens (rl_step rl ev) \<and> tokens (rl_step rl ev) \<le> maxTokens rl"
  by (cases ev) (auto simp: Allow_def refillTick_def)

lemma rl_run_bounds:
  "0 \<le> maxTokens rl \<Longrightarrow> 0 \<le> tokens rl \<and> tokens rl \<le> maxTokens rl \<Longrightarrow>
     maxTokens (rl_run evs rl) = maxTokens rl \<and>
     0 \<le> tokens (rl_run evs rl) \<and> tokens (rl_run evs rl) \<le> maxTokens rl"
  unfolding rl_run_def
proof (induction evs arbitrary: rl)
  case Nil
  then show ?case by simp
next
  case (Cons ev evs)
  from rl_step_bounds [OF Cons.prems, of ev] Cons.IH [of "rl_step rl ev"] show ?case
    by simp
qed

text \<open>
  Claim C8. With \<open>maxTokens > 0\<close> and a full bucket: of \<open>maxTokens + j\<close> consecutive
  calls of \<^verbatim>\<open>Allow\<close> the first \<open>maxTokens\<close> are granted and the \<open>j\<close> further ones are
  refused; after one refill tick, of \<open>maxTokens + k\<close> calls again exactly the first
  \<open>maxTokens\<close> are granted; and after any sequence of calls and ticks the token count
  lies in \<open>[0, maxTokens]\<close>.
\<close>

theorem C8_rate_limiter:
  assumes "0 < m"
  shows "fst (allowN (nat m + j) (NewRateLimiter m d)) = replicate (nat m) True @ replicate j False
    \<and> fst (allowN (nat m + k) (refillTick (snd (allowN (nat m + j) (NewRateLimiter m d)))))
           = replicate (nat m) True @ replicate k False
    \<and> 0 \<le> tokens (rl_run evs (NewRateLimiter m d)) \<and> tokens (rl_run evs (NewRateLimiter m d)) \<le> m"
proof -
  have init: "0 \<le> tokens (NewRateLimiter m d)" "tokens (NewRateLimiter m d) = m"
    "maxTokens (NewRateLimiter m d) = m"
    using assms by (simp_all add: NewRateLimiter_def)
  have first: "fst (allowN (nat m + j) (NewRateLimiter m d)) = replicate (nat m) True @ replicate j False"
    using allowN_answers [OF init(1), of "nat m + j"] init(2) by simp
  let ?rl = "refillTick (snd (allowN (nat m + j) (NewRateLimiter m d)))"
  have full: "tokens ?rl = m"
    by (simp add: refillTick_def allowN_maxTokens init(3))
  then have "0 \<le> tokens ?rl" using assms by simp
  from allowN_answers [OF this, of "nat m + k"] full
  have second: "fst (allowN (nat m + k) ?rl) = replicate (nat m) True @ replicate k False"
    by simp
  have third: "0 \<le> tokens (rl_run evs (NewRateLimiter m d)) \<and> tokens (rl_run evs (NewRateLimiter m d)) \<le> m"
    using rl_run_bounds [of "NewRateLimiter m d" evs] assms init by simp
  from first second third show ?thesis by blast
qed

theorem C8_rate_limiter_witness:
  "(0::int) < 2
   \<and> fst (allowN 3 (NewRateLimiter 2 1000)) = [True, True, False]
   \<and> fst (allowN 4 (refillTick (snd (allowN 3 (NewRateLimiter 2 1000))))) = [True, True, False, False]
   \<and> 0 \<le> tokens (rl_run [CallAllow, CallAllow, CallAllow, Tick, CallAllow] (NewRateLimiter 2 1000))
   \<and> tokens (rl_run [CallAllow, CallAllow, CallAllow, Tick, CallAllow] (NewRateLimiter 2 1000)) \<le> 2"
proof -
  have h: "(0::int) < 2" by simp
  have n3: "nat 2 + 1 = (3::nat)" and n4: "nat 2 + 2 = (4::nat)" by simp_all
  have r2: "replicate (nat 2) True @ replicate 1 False = [True, True, False]"
    and r4: "replicate (nat 2) True @ replicate 2 False = [True, True, False, False]"
    by (simp_all add: numeral_2_eq_2)
  from C8_rate_limiter [OF h, of 1 1000 2 "[CallAllow, CallAllow, CallAllow, Tick, CallAllow]"]
  show ?thesis unfolding n3 n4 r2 r4 by simp
qed

section \<open>Deleting from the radix tree\<close>

lemmas tree_eval =
  New_def Insert_def Delete_def insert.simps delete.simps commonPrefixLen_def cplLoop.simps
  setChild_def removeChild_def mergeable_def

text \<open>
  Claim C2: after a Delete the tree is compressed again, no node without a value being
  left with a single child. The code does not do this when the deleted key sits on a node
  that has children: \<^verbatim>\<open>delete\<close> then only clears the value. After Insert "a", Insert
  "ab", Delete "a" the node "a" has no value and the single child "b", so the tree is not
  compressed; the delete reported success and the size is 1. When the deleted key is a
  leaf next to such a node (Insert "a", "ab", "ac", then Delete "a" and Delete "ac"
  against Delete "ac" alone) the sibling path of the same function does merge.
\<close>

theorem C2_delete_leaves_uncompressed:
  "apply_ops New [OpInsert ''a'' (Some (1::nat)), OpInsert ''ab'' (Some 2)]
     = Inr \<lparr>root = Node [] None False
              [(CHR ''a'', Node ''a'' (Some 1) True [(CHR ''b'', Node ''b'' (Some 2) True [])])],
            size' = 2\<rparr>
   \<and> Delete \<lparr>root = Node [] None False
              [(CHR ''a'', Node ''a'' (Some (1::nat)) True [(CHR ''b'', Node ''b'' (Some 2) True [])])],
            size' = 2\<rparr> ''a''
     = (\<lparr>root = Node [] None False
              [(CHR ''a'', Node ''a'' None False [(CHR ''b'', Node ''b'' (Some 2) True [])])],
            size' = 1\<rparr>, True)
   \<and> compressed (Node [] None False
              [(CHR ''a'', Node ''a'' (Some (1::nat)) True [(CHR ''b'', Node ''b'' (Some 2) True [])])])
   \<and> \<not> compressed (Node [] None False
              [(CHR ''a'', Node ''a'' (None :: nat option) False [(CHR ''b'', Node ''b'' (Some 2) True [])])])"
  by (simp add: tree_eval)


section \<open>The worker pool\<close>

lemmas pool_eval =
  Submit_def resumeSubmit_def workerReceive_def Shutdown_def NewWorkerPool_def
  chanSend_def chanRecv_def chanClose_def makeChan_def

lemma Submit_never_rejects: "Submit wp task \<noteq> Returns (Some e) s"
  by (simp add: Submit_def Let_def split: send.splits)

lemma executeHandler_never_503: "fst (executeHandler r h) \<noteq> ServiceUnavailable"
  by (simp add: executeHandler_def Submit_def Let_def split: option.splits send.splits)

text \<open>
  Claim C10: \<^verbatim>\<open>Submit\<close> returns \<^verbatim>\<open>nil\<close> for every task in every pool state, suspending
  the submitter while the queue is full, and the dispatcher's 503 branch is unreachable.
  As stated this fails in one pool state: after \<^verbatim>\<open>Shutdown\<close> has closed the task
  channel, \<^verbatim>\<open>Submit\<close> does not return at all, its send panics.
\<close>

theorem C10_submit_after_shutdown_panics:
  "NewWorkerPool 1 = Inr \<lparr>tasks = \<lparr>buf = [], cap = 10, closed = False\<rparr>, wg = 0, poolSize = 1\<rparr>
   \<and> Shutdown \<lparr>tasks = \<lparr>buf = [], cap = 10, closed = False\<rparr>, wg = 0, poolSize = 1\<rparr>
       = Returns () \<lparr>tasks = \<lparr>buf = ([] :: nat list), cap = 10, closed = True\<rparr>, wg = 0, poolSize = 1\<rparr>
   \<and> Submit \<lparr>tasks = \<lparr>buf = [], cap = 10, closed = True\<rparr>, wg = 0, poolSize = 1\<rparr> (7 :: nat)
       = Panics SendOnClosedChannel"
  by (simp add: pool_eval)

text \<open>
  Claim C10, amended: in every pool state whose task channel has not been closed,
  \<^verbatim>\<open>Submit\<close> returns \<^verbatim>\<open>nil\<close> with the task queued when the queue has room, and suspends
  the submitter when the queue is full; once a worker has taken a task from the full
  queue the suspended send goes through and \<^verbatim>\<open>Submit\<close> returns \<^verbatim>\<open>nil\<close>. It never returns
  an error, and a dispatcher using the pool never answers 503.
\<close>

theorem C10_submit_open_pool:
  assumes "\<not> closed (tasks wp)"
  shows "Submit wp task =
           (if length (buf (tasks wp)) < cap (tasks wp)
            then Returns None (wp\<lparr>wg := wg wp + 1, tasks := (tasks wp)\<lparr>buf := buf (tasks wp) @ [task]\<rparr>\<rparr>)
            else Blocks (wp\<lparr>wg := wg wp + 1\<rparr>))
     \<and> (buf (tasks wp) \<noteq> [] \<and> length (buf (tasks wp)) \<le> cap (tasks wp) \<longrightarrow>
          resumeSubmit (snd (workerReceive (wp\<lparr>wg := wg wp + 1\<rparr>))) task
            = Returns None (wp\<lparr>tasks := (tasks wp)\<lparr>buf := tl (buf (tasks wp)) @ [task]\<rparr>\<rparr>))
     \<and> (\<forall>e s. Submit wp task \<noteq> Returns (Some e) s)
     \<and> (workerPool r = Some wp \<longrightarrow> fst (executeHandler r h) \<noteq> ServiceUnavailable)"
proof -
  have 1: "Submit wp task =
           (if length (buf (tasks wp)) < cap (tasks wp)
            then Returns None (wp\<lparr>wg := wg wp + 1, tasks := (tasks wp)\<lparr>buf := buf (tasks wp) @ [task]\<rparr>\<rparr>)
            else Blocks (wp\<lparr>wg := wg wp + 1\<rparr>))"
    using assms by (simp add: Submit_def chanSend_def Let_def)
  have 2: "resumeSubmit (snd (workerReceive (wp\<lparr>wg := wg wp + 1\<rparr>))) task
            = Returns None (wp\<lparr>tasks := (tasks wp)\<lparr>buf := tl (buf (tasks wp)) @ [task]\<rparr>\<rparr>)"
    if "buf (tasks wp) \<noteq> []" "length (buf (tasks wp)) \<le> cap (tasks wp)"
  proof -
    from that(1) obtain x xs where b: "buf (tasks wp) = x # xs" by (cases "buf (tasks wp)") auto
    with that(2) assms show ?thesis
      by (simp add: resumeSubmit_def workerReceive_def chanRecv_def chanSend_def)
  qed
  show ?thesis
  proof (intro conjI impI allI)
    show "Submit wp task =
           (if length (buf (tasks wp)) < cap (tasks wp)
            then Returns None (wp\<lparr>wg := wg wp + 1, tasks := (tasks wp)\<lparr>buf := buf (tasks wp) @ [task]\<rparr>\<rparr>)
            else Blocks (wp\<lparr>wg := wg wp + 1\<rparr>))"
      by (rule 1)
  next
    assume "buf (tasks wp) \<noteq> [] \<and> length (buf (tasks wp)) \<le> cap (tasks wp)"
    then show "resumeSubmit (snd (workerReceive (wp\<lparr>wg := wg wp + 1\<rparr>))) task
            = Returns None (wp\<lparr>tasks := (tasks wp)\<lparr>buf := tl (buf (tasks wp)) @ [task]\<rparr>\<rparr>)"
      using 2 by simp
  next
    fix e s show "Submit wp task \<noteq> Returns (Some e) s" by (rule Submit_never_rejects)
  next
    show "fst (executeHandler r h) \<noteq> ServiceUnavailable" by (rule executeHandler_never_503)
  qed
qed

theorem C10_submit_open_pool_witness:
  "\<not> closed (tasks \<lparr>tasks = \<lparr>buf = [1, 2 :: nat], cap = 2, closed = False\<rparr>, wg = 2, poolSize = 1\<rparr>)
   \<and> Submit \<lparr>tasks = \<lparr>buf = [1, 2 :: nat], cap = 2, closed = False\<rparr>, wg = 2, poolSize = 1\<rparr> 3
       = Blocks \<lparr>tasks = \<lparr>buf = [1, 2], cap = 2, closed = False\<rparr>, wg = 3, poolSize = 1\<rparr>
   \<and> resumeSubmit (snd (workerReceive
         \<lparr>tasks = \<lparr>buf = [1, 2 :: nat], cap = 2, closed = False\<rparr>, wg = 3, poolSize = 1\<rparr>)) 3
       = Returns None \<lparr>tasks = \<lparr>buf = [2, 3], cap = 2, closed = False\<rparr>, wg = 2, poolSize = 1\<rparr>
   \<and> fst (executeHandler
         \<lparr>staticRoutes = New, dynamicRoutes = [], middlewares = [],
          workerPool = Some \<lparr>tasks = \<lparr>buf = [1, 2 :: nat], cap = 2, closed = False\<rparr>, wg = 2, poolSize = 1\<rparr>,
          rateLimiter = None\<rparr> 3) \<noteq> ServiceUnavailable"
  using C10_submit_open_pool
    [of "\<lparr>tasks = \<lparr>buf = [1, 2 :: nat], cap = 2, closed = False\<rparr>, wg = 2, poolSize = 1\<rparr>" 3
        "\<lparr>staticRoutes = New, dynamicRoutes = [], middlewares = [],
          workerPool = Some \<lparr>tasks = \<lparr>buf = [1, 2 :: nat], cap = 2, closed = False\<rparr>, wg = 2, poolSize = 1\<rparr>,
          rateLimiter = None\<rparr>" 3]
  by simp


section \<open>Routing\<close>

lemmas router_eval =
  Handle_def NewRouter_def containsColonOrStar_def ServeHTTP_def Get_def findNode_def
  findNodeLoop.simps New_def matchPattern_def splitPath_def executeHandler_def

text \<open>
  Claim C3: with \<^verbatim>\<open>GET /users/:id\<close> registered, \<^verbatim>\<open>GET /users/42\<close> runs the handler with
  the parameter \<open>id\<close> = "42", and \<^verbatim>\<open>POST /users/42\<close> is answered 405 (the path matches, the
  method does not), not 404. The first half holds. The second does not: the loop over the
  dynamic routes tests the pattern and the method in one condition, a route whose method
  differs is skipped like one whose pattern differs, and the request falls through to
  404. (For a static route the same router answers 405 with the \<^verbatim>\<open>Allow\<close> header.)
\<close>

theorem C3_post_users_42_is_404:
  "\<exists>r params.
     Handle NewRouter ''GET'' ''/users/:id'' h = Inr r
     \<and> fst (ServeHTTP r \<lparr>Method = ''GET'', Path = ''/users/42''\<rparr>)
         = Dispatched (Some params) (RunsInline h)
     \<and> params ''id'' = Some ''42''
     \<and> fst (ServeHTTP r \<lparr>Method = ''POST'', Path = ''/users/42''\<rparr>) = NotFound"
  by (simp add: router_eval)

text \<open>
  Claim C7: a trailing wildcard segment \<^verbatim>\<open>*name\<close> of a pattern captures the rest of the
  path. \<^verbatim>\<open>Handle\<close> does send a pattern with \<^verbatim>\<open>*\<close> to the dynamic routes, but
  \<^verbatim>\<open>matchPattern\<close> has no case for it: the segment \<^verbatim>\<open>*path\<close> is compared literally.
  \<^verbatim>\<open>/files/*path\<close> matches neither \<^verbatim>\<open>/files/readme.txt\<close> (segments differ) nor
  \<^verbatim>\<open>/files/a/b\<close> (segment counts differ), both requests are answered 404, and the only
  path the pattern matches is the one spelling \<^verbatim>\<open>*path\<close> itself, capturing nothing.
\<close>

theorem C7_wildcard_not_matched:
  "matchPattern ''/files/*path'' ''/files/readme.txt'' = None
   \<and> matchPattern ''/files/*path'' ''/files/a/b'' = None
   \<and> (\<exists>r. Handle NewRouter ''GET'' ''/files/*path'' h = Inr r
        \<and> dynamicRoutes r = [\<lparr>method' = ''GET'', pattern = ''/files/*path'', handler = h\<rparr>]
        \<and> fst (ServeHTTP r \<lparr>Method = ''GET'', Path = ''/files/readme.txt''\<rparr>) = NotFound
        \<and> fst (ServeHTTP r \<lparr>Method = ''GET'', Path = ''/files/a/b''\<rparr>) = NotFound)
   \<and> (\<exists>params. matchPattern ''/files/*path'' ''/files/*path'' = Some params
        \<and> params ''path'' = None \<and> params ''*path'' = None)"
  by (simp add: router_eval)


section \<open>The frame codec\<close>

lemma bit_byte_at:
  "bit (push_bit k (ucast (ucast (drop_bit k (v :: 64 word)) :: byte) :: 64 word)) n
     = (k \<le> n \<and> n < k + 8 \<and> n < 64 \<and> bit v n)"
  by (auto simp add: bit_simps)

lemma bit_byte_0:
  "bit (ucast (ucast (v :: 64 word) :: byte) :: 64 word) n = (n < 8 \<and> bit v n)"
  by (auto simp add: bit_simps)

lemma Uint16_PutUint16: "Uint16 (PutUint16 v) = v"
  unfolding Uint16_def PutUint16_def
  by (rule bit_word_eqI) (auto simp: bit_simps)

lemma Uint64_PutUint64: "Uint64 (PutUint64 v) = v"
proof (rule bit_word_eqI)
  fix n :: nat
  assume "n < LENGTH(64)"
  then have n: "n < 64" by simp
  have "bit (Uint64 (PutUint64 v)) n =
     ((n < 8 \<and> bit v n) \<or> (8 \<le> n \<and> n < 8 + 8 \<and> n < 64 \<and> bit v n)
      \<or> (16 \<le> n \<and> n < 16 + 8 \<and> n < 64 \<and> bit v n)
      \<or> (24 \<le> n \<and> n < 24 + 8 \<and> n < 64 \<and> bit v n)
      \<or> (32 \<le> n \<and> n < 32 + 8 \<and> n < 64 \<and> bit v n)
      \<or> (40 \<le> n \<and> n < 40 + 8 \<and> n < 64 \<and> bit v n)
      \<or> (48 \<le> n \<and> n < 48 + 8 \<and> n < 64 \<and> bit v n)
      \<or> (56 \<le> n \<and> n < 56 + 8 \<and> n < 64 \<and> bit v n))"
    unfolding Uint64_def PutUint64_def
    by (simp only: nth_Cons_numeral nth_Cons_0 nth_Cons_Suc numeral_eq_Suc pred_numeral_simps
                   bit_or_iff bit_byte_at bit_byte_0 One_nat_def
                   arith_simps diff_Suc_Suc diff_zero)
  also have "\<dots> = bit v n" using n by (cases "bit v n") (simp, arith, simp)
  finally show "bit (Uint64 (PutUint64 v)) n = bit v n" .
qed

lemma length_PutUint16: "length (PutUint16 v) = 2"
  by (simp add: PutUint16_def)

lemma length_PutUint64: "length (PutUint64 v) = 8"
  by (simp add: PutUint64_def)

lemma ReadFull_append: "length a = n \<Longrightarrow> ReadFull n (a @ r) = (Inr a, r)"
  by (simp add: ReadFull_def)

lemma ReadFull_1: "ReadFull (Suc 0) (a # r) = (Inr [a], r)"
  by (simp add: ReadFull_def)

lemma Write_ok: "Write bs w = (None, w') \<Longrightarrow> written w' = written w @ bs"
  by (auto simp: Write_def split: option.splits nat.splits)

lemma Write_unbounded: "budget w = None \<Longrightarrow> Write bs w = (None, w\<lparr>written := written w @ bs\<rparr>)"
  by (simp add: Write_def)

lemma first_byte_fin: "(0x80 OR (opcode AND 0x0F)) AND (0x80 :: byte) \<noteq> 0"
proof
  assume "(0x80 OR (opcode AND 0x0F)) AND (0x80 :: byte) = 0"
  then have "bit ((0x80 OR (opcode AND 0x0F)) AND (0x80 :: byte)) 7 = bit (0 :: byte) 7" by simp
  then show False by (simp add: bit_simps)
qed

lemma first_byte_opcode:
  "opcode < 16 \<Longrightarrow> (0x80 OR (opcode AND 0x0F)) AND (0x0F :: byte) = opcode"
proof -
  assume "opcode < 16"
  then have "opcode < 2 ^ 4" by simp
  then have t: "opcode AND mask 4 = opcode" by (rule less_mask_eq)
  have m: "(0x0F :: byte) = mask 4" by (simp add: mask_eq_exp_minus_1)
  have z: "(0x80 :: byte) AND mask 4 = 0"
    by (simp add: mask_eq_exp_minus_1)
  show ?thesis
    unfolding m by (simp add: bit.conj_disj_distrib2 z t)
qed

lemma supported_lt_16: "opcode \<in> set supportedOpcodes \<Longrightarrow> opcode < 16"
  by (auto simp: supportedOpcodes_def OpContinuation_def OpText_def OpBinary_def
                 OpClose_def OpPing_def OpPong_def)

lemma byte_lt_128:
  assumes "n < 128"
  shows "(word_of_nat n :: byte) AND 0x80 = 0"
proof -
  let ?b = "word_of_nat n :: byte"
  have "?b < 2 ^ 7" using assms by (simp add: word_less_nat_alt unat_of_nat)
  then have t: "?b AND mask 7 = ?b" by (rule less_mask_eq)
  have "?b AND 0x80 = (?b AND mask 7) AND 0x80" by (simp only: t)
  also have "\<dots> = ?b AND (mask 7 AND 0x80)" by (simp only: and.assoc)
  also have "mask 7 AND (0x80 :: byte) = 0" by (simp add: mask_eq_exp_minus_1)
  finally show ?thesis by simp
qed

lemma byte_low7:
  assumes "n < 128"
  shows "ucast ((word_of_nat n :: byte) AND 0x7F) = (word_of_nat n :: 64 word)"
proof -
  let ?b = "word_of_nat n :: byte"
  have "?b < 2 ^ 7" using assms by (simp add: word_less_nat_alt unat_of_nat)
  then have t: "?b AND mask 7 = ?b" by (rule less_mask_eq)
  have m: "(0x7F :: byte) = mask 7" by (simp add: mask_eq_exp_minus_1)
  have "take_bit 8 n = n" using assms by (simp add: take_bit_nat_eq_self_iff)
  then show ?thesis unfolding m t by (simp add: unsigned_of_nat)
qed

lemma word64_of_nat_neq:
  assumes "n < 2 ^ 64" "m < 2 ^ 64" "n \<noteq> m"
  shows "(word_of_nat n :: 64 word) \<noteq> word_of_nat m"
  using assms by (simp add: word_of_nat_eq_iff take_bit_eq_mod)

lemma sint_word64_of_nat:
  assumes "n < 2 ^ 63"
  shows "sint (word_of_nat n :: 64 word) = int n"
proof -
  have "n < 2 ^ 64" using assms by simp
  then have "take_bit 64 n = n" by (simp add: take_bit_eq_mod)
  then have "uint (word_of_nat n :: 64 word) = int n" by (simp add: unsigned_of_nat)
  moreover have "signed_take_bit 63 (int n) = int n"
    using assms
    by (intro signed_take_bit_int_eq_self)
       (simp_all add: of_nat_less_iff [of n "2 ^ 63", where ?'a = int, simplified])
  ultimately show ?thesis by (simp add: sint_uint)
qed

lemma ucast16_word_of_nat:
  assumes "n < 2 ^ 16"
  shows "ucast (word_of_nat n :: 16 word) = (word_of_nat n :: 64 word)"
proof -
  have "take_bit 16 n = n" using assms by (simp add: take_bit_eq_mod)
  then show ?thesis by (simp add: unsigned_of_nat)
qed

lemma ReadFull_PutUint16: "ReadFull 2 (PutUint16 v @ r) = (Inr (PutUint16 v), r)"
  by (rule ReadFull_append) (rule length_PutUint16)

lemma ReadFull_PutUint64: "ReadFull 8 (PutUint64 v @ r) = (Inr (PutUint64 v), r)"
  by (rule ReadFull_append) (rule length_PutUint64)

lemma readFrame_small:
  assumes "opcode < 16" "length payload < 126"
  shows "readFrame (frameBytes opcode payload @ rest) = (Ok (opcode, payload), rest)"
proof -
  let ?n = "length payload"
  have a: "(word_of_nat ?n :: byte) AND 0x80 = 0" using assms by (intro byte_lt_128) simp
  have b: "ucast ((word_of_nat ?n :: byte) AND 0x7F) = (word_of_nat ?n :: 64 word)"
    using assms by (intro byte_low7) simp
  have c: "(word_of_nat ?n :: 64 word) \<noteq> 126" "(word_of_nat ?n :: 64 word) \<noteq> 127"
    using word64_of_nat_neq [of ?n 126] word64_of_nat_neq [of ?n 127] assms by simp_all
  have d: "sint (word_of_nat ?n :: 64 word) = int ?n" using assms by (intro sint_word64_of_nat) simp
  show ?thesis
    using assms(2)
    by (simp add: readFrame_def frameBytes_def ReadFull_1 readExtendedLen_def readMaskingKey_def
         a b c d first_byte_fin first_byte_opcode [OF assms(1)] ReadFull_append)
qed

lemma readFrame_medium:
  assumes "opcode < 16" "126 \<le> length payload" "length payload \<le> 65535"
  shows "readFrame (frameBytes opcode payload @ rest) = (Ok (opcode, payload), rest)"
proof -
  let ?n = "length payload"
  have b: "ucast (word_of_nat ?n :: 16 word) = (word_of_nat ?n :: 64 word)"
    using assms by (intro ucast16_word_of_nat) simp
  have d: "sint (word_of_nat ?n :: 64 word) = int ?n" using assms by (intro sint_word64_of_nat) simp
  show ?thesis
    using assms(2,3)
    by (simp add: readFrame_def frameBytes_def ReadFull_1 readExtendedLen_def readMaskingKey_def
         b d first_byte_fin first_byte_opcode [OF assms(1)] ReadFull_append
         ReadFull_PutUint16 Uint16_PutUint16)
qed

lemma readFrame_large:
  assumes "opcode < 16" "65535 < length payload" "length payload < 2 ^ 63"
  shows "readFrame (frameBytes opcode payload @ rest) = (Ok (opcode, payload), rest)"
proof -
  let ?n = "length payload"
  have d: "sint (word_of_nat ?n :: 64 word) = int ?n" using assms by (intro sint_word64_of_nat) simp
  show ?thesis
    using assms(2)
    by (simp add: readFrame_def frameBytes_def ReadFull_1 readExtendedLen_def readMaskingKey_def
         d first_byte_fin first_byte_opcode [OF assms(1)] ReadFull_append
         ReadFull_PutUint64 Uint64_PutUint64)
qed

lemma readFrame_frameBytes:
  assumes "opcode < 16" "length payload < 2 ^ 63"
  shows "readFrame (frameBytes opcode payload @ rest) = (Ok (opcode, payload), rest)"
proof -
  consider "length payload < 126" | "126 \<le> length payload" "length payload \<le> 65535"
    | "65535 < length payload" by linarith
  then show ?thesis
    using assms by cases (simp_all add: readFrame_small readFrame_medium readFrame_large)
qed

lemma writeFrame_written:
  assumes "writeFrame opcode payload w = (None, w')"
  shows "written w' = written w @ frameBytes opcode payload"
  using assms
  by (auto simp: writeFrame_def frameBytes_def Let_def
           split: prod.splits option.splits if_splits dest!: Write_ok)

lemma writeFrame_unbounded:
  assumes "budget w = None"
  shows "writeFrame opcode payload w = (None, w\<lparr>written := written w @ frameBytes opcode payload\<rparr>)"
  using assms by (simp add: writeFrame_def frameBytes_def Let_def Write_unbounded)

lemma frame_round_trip_boundary_lengths:
  assumes "n \<in> {0, 125, 126, 65535, 65536}" "opcode \<in> set supportedOpcodes"
  shows "readFrame (written (snd (writeFrame opcode (replicate n b) \<lparr>written = [], budget = None\<rparr>)) @ rest)
           = (Ok (opcode, replicate n b), rest)"
proof -
  have "n < 2 ^ 63" using assms(1) by auto
  then show ?thesis
    using supported_lt_16 [OF assms(2)]
    by (simp add: writeFrame_unbounded readFrame_frameBytes)
qed

text \<open>
  Claim C4: for every opcode of the supported set and every payload, the frame written by
  \<^verbatim>\<open>writeFrame\<close>, when all its writes succeed, is read back by \<^verbatim>\<open>readFrame\<close> as the
  same opcode and payload, whatever the length (0, 125, 126, 65535, 65536 and any other:
  the three length encodings). The length of a Go slice is an \<^verbatim>\<open>int\<close>, below \<open>2^63\<close>.
  The bytes of the frame are those the call appended to the writer; \<open>rest\<close> is whatever
  follows the frame on the stream, and is left unread. A writer that does not fail makes
  \<^verbatim>\<open>writeFrame\<close> succeed.
\<close>

theorem C4_frame_round_trip:
  assumes "opcode \<in> set supportedOpcodes"
    and "length payload < 2 ^ 63"
    and "writeFrame opcode payload w = (None, w')"
  shows "readFrame (drop (length (written w)) (written w') @ rest) = (Ok (opcode, payload), rest)
     \<and> fst (writeFrame opcode payload (w\<lparr>budget := None\<rparr>)) = None"
proof -
  have "written w' = written w @ frameBytes opcode payload"
    using assms(3) by (rule writeFrame_written)
  then have "drop (length (written w)) (written w') = frameBytes opcode payload" by simp
  then show ?thesis
    using readFrame_frameBytes [OF supported_lt_16 [OF assms(1)] assms(2)]
    by (simp add: writeFrame_unbounded)
qed

theorem C4_frame_round_trip_witness:
  "OpText \<in> set supportedOpcodes
   \<and> length [0x68, 0x69 :: byte] < 2 ^ 63
   \<and> writeFrame OpText [0x68, 0x69] \<lparr>written = [], budget = None\<rparr>
       = (None, \<lparr>written = [0x81, 0x02, 0x68, 0x69], budget = None\<rparr>)
   \<and> readFrame ([0x81, 0x02, 0x68, 0x69] @ [0x88, 0x00])
       = (Ok (OpText, [0x68, 0x69]), [0x88, 0x00])"
  using C4_frame_round_trip
    [of OpText "[0x68, 0x69]" "\<lparr>written = [], budget = None\<rparr>"
        "\<lparr>written = [0x81, 0x02, 0x68, 0x69], budget = None\<rparr>" "[0x88, 0x00]"]
  by (simp add: supportedOpcodes_def OpText_def writeFrame_def Write_def)


section \<open>Closing a WebSocket connection\<close>

lemmas ws_eval =
  readPump_def readPumpLoop.simps WEBSOCKET_def upgradeToWebSocket_def makeChan_def
  readFrame_def ReadFull_def readExtendedLen_def readMaskingKey_def unmask_def
  Close_def close_def chanClose_def chanSend_def chanRecv_def
  OpText_def OpBinary_def OpPing_def OpPong_def OpClose_def

lemma Close_ReceiveChan: "Close wsc = Inr w \<Longrightarrow> ReceiveChan w = ReceiveChan wsc"
  by (auto simp: Close_def Let_def split: if_splits sum.splits option.splits)

lemma Send_ReceiveChan: "Send wsc m = Inr (err, w) \<Longrightarrow> ReceiveChan w = ReceiveChan wsc"
  by (auto simp: Send_def split: if_splits send.splits)

lemma chanSend_closed: "chanSend ch x = Sent ch' \<Longrightarrow> closed ch' = closed ch"
  by (auto simp: chanSend_def split: if_splits)

lemma readPumpLoop_ReceiveChan:
  "readPumpLoop wsc = Inr w \<Longrightarrow> closed (ReceiveChan w) = closed (ReceiveChan wsc)"
proof (induction wsc rule: readPumpLoop.induct)
  case (1 wsc)
  show ?case
  proof (cases "conn wsc")
    case None
    with "1.prems" show ?thesis by (subst (asm) readPumpLoop.simps) simp
  next
    case (Some c)
    show ?thesis
    proof (cases "closed (closeChan c)")
      case True
      with Some "1.prems" show ?thesis by (subst (asm) readPumpLoop.simps) simp
    next
      case False
      obtain res r where rf: "readFrame (bufReader c) = (res, r)" by (cases "readFrame (bufReader c)")
      note IH = "1.IH" [OF Some False rf [symmetric]]
      show ?thesis
      proof (cases res)
        case (Panicked e)
        with Some False rf "1.prems" show ?thesis by (subst (asm) readPumpLoop.simps) simp
      next
        case (Failed e)
        with Some False rf "1.prems" show ?thesis by (subst (asm) readPumpLoop.simps) auto
      next
        case (Ok x)
        obtain opcode payload where x: "x = (opcode, payload)" by (cases x)
        note IH' = IH [OF Ok x [symmetric]]
        from Some False rf Ok x "1.prems"
        have p: "(if opcode = OpText \<or> opcode = OpBinary then
                   (case chanSend (ReceiveChan wsc) payload of
                      Sent ch \<Rightarrow>
                        readPumpLoop (wsc\<lparr>conn := Some (c\<lparr>bufReader := r\<rparr>), ReceiveChan := ch\<rparr>)
                    | Full \<Rightarrow> readPumpLoop (wsc\<lparr>conn := Some (c\<lparr>bufReader := r\<rparr>)\<rparr>)
                    | ClosedChan \<Rightarrow> Inl SendOnClosedChannel)
                 else if opcode = OpPing then
                   readPumpLoop
                     (wsc\<lparr>conn := Some (c\<lparr>bufReader := r,
                                            bufWriter := snd (writeFrame OpPong payload (bufWriter c))\<rparr>)\<rparr>)
                 else if opcode = OpPong then
                   readPumpLoop (wsc\<lparr>conn := Some (c\<lparr>bufReader := r\<rparr>)\<rparr>)
                 else if opcode = OpClose then
                   Close (wsc\<lparr>conn := Some (c\<lparr>bufReader := r\<rparr>)\<rparr>)
                 else readPumpLoop (wsc\<lparr>conn := Some (c\<lparr>bufReader := r\<rparr>)\<rparr>)) = Inr w"
          by (subst (asm) readPumpLoop.simps) simp
        show ?thesis
        proof (cases "opcode = OpText \<or> opcode = OpBinary")
          case True
          show ?thesis
          proof (cases "chanSend (ReceiveChan wsc) payload")
            case (Sent ch)
            from p True Sent IH'(1) [OF True Sent] chanSend_closed [OF Sent]
            show ?thesis by simp
          next
            case Full
            from p True Full IH'(2) [OF True Full] show ?thesis by simp
          next
            case ClosedChan
            with p True show ?thesis by simp
          qed
        next
          case nt: False
          show ?thesis
          proof (cases "opcode = OpPing")
            case True
            from p nt True IH'(3) [OF nt True] show ?thesis by simp
          next
            case np: False
            show ?thesis
            proof (cases "opcode = OpPong")
              case True
              from p nt np True IH'(4) [OF nt np True] show ?thesis by simp
            next
              case npo: False
              show ?thesis
              proof (cases "opcode = OpClose")
                case True
                from p nt np npo True have "Close (wsc\<lparr>conn := Some (c\<lparr>bufReader := r\<rparr>)\<rparr>) = Inr w"
                  by simp
                from Close_ReceiveChan [OF this] show ?thesis by simp
              next
                case False
                from p nt np npo False IH'(5) [OF nt np npo False] show ?thesis by simp
              qed
            qed
          qed
        qed
      qed
    qed
  qed
qed

lemma readPump_ReceiveChan:
  "readPump wsc = Inr w \<Longrightarrow> closed (ReceiveChan w) = closed (ReceiveChan wsc)"
  by (auto simp: readPump_def split: sum.splits
           dest!: readPumpLoop_ReceiveChan Close_ReceiveChan)

text \<open>
  Claim C6: when the peer sends a close frame, the connection is marked closed, the raw
  stream is released and the inbound application channel \<^verbatim>\<open>ReceiveChan\<close> ends. The first
  two hold, the third does not: no function of the source closes \<^verbatim>\<open>ReceiveChan\<close>
  (lemmas \<open>readPump_ReceiveChan\<close>, \<open>Close_ReceiveChan\<close>, \<open>Send_ReceiveChan\<close>). On a
  stream holding one (masked, empty) close frame \<^verbatim>\<open>readPump\<close> returns with the
  connection closed, \<^verbatim>\<open>SendChan\<close> and \<^verbatim>\<open>closeChan\<close> closed and the stream released
  once, but \<^verbatim>\<open>ReceiveChan\<close> is still open and empty: a receive on it, and so the
  handler's \<^verbatim>\<open>range\<close> loop, waits for ever.
\<close>

theorem C6_close_frame_leaves_ReceiveChan_open:
  "\<exists>s c. readPump (WEBSOCKET [0x88, 0x80, 0x01, 0x02, 0x03, 0x04] w) = Inr s
     \<and> Closed s \<and> conn s = Some c \<and> netConnCloses c = 1 \<and> isClosed c
     \<and> closed (closeChan c) \<and> closed (SendChan s)
     \<and> \<not> closed (ReceiveChan s) \<and> chanRecv (ReceiveChan s) = Empty"
  by (simp add: ws_eval)

lemma Send_Closed: "Closed wsc \<Longrightarrow> Send wsc m = Inr (Some ''connection closed'', wsc)"
  by (simp add: Send_def)

lemma Close_Closed: "Closed wsc \<Longrightarrow> Close wsc = Inr wsc"
  by (simp add: Close_def)

lemma Send_inv:
  assumes "ws_inv wsc"
  shows "\<exists>err w'. Send wsc m = Inr (err, w') \<and> ws_inv w' \<and> Closed w' = Closed wsc"
  using assms
  by (auto simp: Send_def ws_inv_def chanSend_def split: option.splits)

lemma Close_inv:
  assumes "ws_inv wsc"
  shows "\<exists>w'. Close wsc = Inr w' \<and> ws_inv w' \<and> Closed w'"
proof (cases "Closed wsc")
  case True
  with assms show ?thesis by (simp add: Close_Closed)
next
  case False
  from assms obtain c where c: "conn wsc = Some c"
    by (auto simp: ws_inv_def split: option.splits)
  with assms False have
    "Close wsc = Inr (wsc\<lparr>Closed := True, SendChan := (SendChan wsc)\<lparr>closed := True\<rparr>,
        conn := Some (c\<lparr>closeOnce := True, closeChan := (closeChan c)\<lparr>closed := True\<rparr>,
                         isClosed := True, netConnCloses := netConnCloses c + 1\<rparr>)\<rparr>)"
    by (simp add: Close_def close_def ws_inv_def chanClose_def Let_def)
  moreover have "ws_inv (wsc\<lparr>Closed := True, SendChan := (SendChan wsc)\<lparr>closed := True\<rparr>,
        conn := Some (c\<lparr>closeOnce := True, closeChan := (closeChan c)\<lparr>closed := True\<rparr>,
                         isClosed := True, netConnCloses := netConnCloses c + 1\<rparr>)\<rparr>)"
    using assms False c by (simp add: ws_inv_def)
  ultimately show ?thesis by simp
qed

lemma WEBSOCKET_inv: "ws_inv (WEBSOCKET input w)"
  by (simp add: ws_inv_def WEBSOCKET_def upgradeToWebSocket_def makeChan_def)

lemma ws_run_Closed:
  "Closed wsc \<Longrightarrow> ws_run ops wsc = Inr (map closedAnswer ops, wsc)"
proof (induction ops)
  case Nil
  show ?case by simp
next
  case (Cons op ops)
  then show ?case
    by (cases op) (simp_all add: Send_Closed Close_Closed closedAnswer_def)
qed

lemma ws_run_inv:
  "ws_inv wsc \<Longrightarrow> \<exists>rs w'. ws_run ops wsc = Inr (rs, w') \<and> ws_inv w' \<and> length rs = length ops"
proof (induction ops arbitrary: wsc)
  case Nil
  then show ?case by simp
next
  case (Cons op ops)
  show ?case
  proof (cases op)
    case (DoSend m)
    from Send_inv [OF Cons.prems, of m] obtain err w1
      where s: "Send wsc m = Inr (err, w1)" and i: "ws_inv w1" by blast
    from Cons.IH [OF i] obtain rs w' where "ws_run ops w1 = Inr (rs, w')" "ws_inv w'"
      "length rs = length ops" by blast
    with s DoSend show ?thesis by simp
  next
    case DoClose
    from Close_inv [OF Cons.prems] obtain w1
      where s: "Close wsc = Inr w1" and i: "ws_inv w1" by blast
    from Cons.IH [OF i] obtain rs w' where "ws_run ops w1 = Inr (rs, w')" "ws_inv w'"
      "length rs = length ops" by blast
    with s DoClose show ?thesis by simp
  qed
qed

lemma ws_run_append:
  "ws_run (a @ b) wsc =
     (case ws_run a wsc of
        Inl e \<Rightarrow> Inl e
      | Inr (rs, w) \<Rightarrow>
          (case ws_run b w of
             Inl e \<Rightarrow> Inl e
           | Inr (rs', w') \<Rightarrow> Inr (rs @ rs', w')))"
proof (induction a arbitrary: wsc)
  case Nil
  show ?case by (simp split: sum.splits)
next
  case (Cons op a)
  show ?case
    by (cases op) (simp_all add: Cons.IH split: sum.splits prod.splits)
qed

text \<open>
  Claim C9: once the closed flag of a connection is true every later \<^verbatim>\<open>Send\<close> is rejected
  with an error and the flag stays true, and the raw stream is released exactly once
  however many times \<^verbatim>\<open>Close\<close> is called. On a connection built by \<^verbatim>\<open>WEBSOCKET\<close>, for
  any calls \<open>pre\<close> before a \<^verbatim>\<open>Close\<close> and any calls \<open>post\<close> after it (further
  \<^verbatim>\<open>Close\<close> calls among both): no call panics, the connection ends closed with
  \<^verbatim>\<open>netConn.Close()\<close> called exactly once, and every call of \<open>post\<close> gets the closed
  answer: a \<^verbatim>\<open>Send\<close> the error \<^verbatim>\<open>connection closed\<close>, a \<^verbatim>\<open>Close\<close> nothing.
\<close>

theorem C9_send_after_close_rejected_stream_released_once:
  "\<exists>rs s c.
     ws_run (pre @ DoClose # post) (WEBSOCKET input w) = Inr (rs, s)
     \<and> Closed s \<and> conn s = Some c \<and> netConnCloses c = 1
     \<and> length rs = length pre + 1 + length post
     \<and> drop (length pre + 1) rs = map closedAnswer post"
proof -
  from ws_run_inv [OF WEBSOCKET_inv, of pre input w] obtain rs1 w1
    where 1: "ws_run pre (WEBSOCKET input w) = Inr (rs1, w1)" and i1: "ws_inv w1"
      and l1: "length rs1 = length pre" by blast
  from Close_inv [OF i1] obtain w2
    where 2: "Close w1 = Inr w2" and i2: "ws_inv w2" and c2: "Closed w2" by blast
  have 3: "ws_run post w2 = Inr (map closedAnswer post, w2)" using c2 by (rule ws_run_Closed)
  from i2 c2 obtain c where c: "conn w2 = Some c" "netConnCloses c = 1"
    by (auto simp: ws_inv_def split: option.splits)
  have "ws_run (pre @ DoClose # post) (WEBSOCKET input w)
          = Inr (rs1 @ CloseReturned # map closedAnswer post, w2)"
    by (simp add: ws_run_append 1 2 3)
  with c c2 l1 show ?thesis by simp
qed


end
